theory Spec2Isabelle
  imports Complex_Main "HOL-Library.Word" "HOL-Library.Signed_Division" "HOL-Library.Log_Nat"
begin

section \<open>The manta timer: data model\<close>

text \<open>
  The program is a terminal work/rest timer written against the bubbletea event loop:
  one value of type \<open>model\<close>, a transition function \<open>Update\<close> that takes a message and
  returns the new model with a command, and a pure function \<open>View\<close> that renders the
  model. Go's \<open>int\<close> is taken at 64 bits: a two's complement word whose \<open>+\<close> and \<open>-\<close>
  wrap and whose comparisons are the signed ones.

  The sources hold two copies of the model. The definitions below follow the one that
  has the field \<open>endTime\<close> and calls \<open>PlayNotification()\<close> in the tick handler. The other
  copy is the same code without that field, without that call, and with the pieces of
  the countdown text in another arrangement.
\<close>

type_synonym go_int = "64 word"

definition work :: go_int where
  "work = 25 * 60"

definition rest :: go_int where
  "rest = 5 * 60"

definition WORKTIME :: string where
  "WORKTIME = ''work''"

definition RESTTIME :: string where
  "RESTTIME = ''rest''"

text \<open>The Go map \<open>mapping\<close>; a key that is absent reads as the zero value.\<close>

definition mapping :: "string \<rightharpoonup> go_int" where
  "mapping = [WORKTIME \<mapsto> work, RESTTIME \<mapsto> rest]"

definition mapping_get :: "string \<Rightarrow> go_int" where
  "mapping_get k = (case mapping k of None \<Rightarrow> 0 | Some v \<Rightarrow> v)"

definition choices :: "string list" where
  "choices = [WORKTIME, RESTTIME]"

definition padding :: go_int where
  "padding = 2"

definition maxWidth :: go_int where
  "maxWidth = 80"

text \<open>
  A \<open>float64\<close> is modelled by the rational number it denotes. Every operation of the
  program on such values gives the exact result rounded to the nearest number with a
  significand of 53 bits, ties going to the even significand, as IEEE 754 binary64
  does in its normal range. \<open>exponent x\<close> is the \<open>e\<close> with \<open>2 ^ e \<le> |x| < 2 ^ (e + 1)\<close>, and
  the spacing of the representable numbers around \<open>x\<close> is \<open>2 ^ (e - 52)\<close>. Infinities,
  NaN and subnormal numbers are not modelled: the program only converts 64-bit
  integers, divides them by 1500 or 300 and subtracts the quotient from 1, and these
  results are zero or within the normal range.
\<close>

definition round_even :: "rat \<Rightarrow> int" where
  "round_even y =
     (let f = \<lfloor>y\<rfloor>; d = y - of_int f
      in if d < 1 / 2 then f else if 1 / 2 < d then f + 1 else if even f then f else f + 1)"

definition exponent :: "rat \<Rightarrow> int" where
  "exponent x =
     (let (a, b) = quotient_of \<bar>x\<bar>; e0 = bitlen a - bitlen b
      in if 2 powi e0 \<le> \<bar>x\<bar> then e0 else e0 - 1)"

definition round53 :: "rat \<Rightarrow> rat" where
  "round53 x =
     (if x = 0 then 0
      else (let u = 2 powi (exponent x - 52) in of_int (round_even (x / u)) * u))"

text \<open>The conversion \<open>float64(n)\<close> of an integer, and \<open>-\<close> and \<open>/\<close> on \<open>float64\<close>.\<close>

definition float64 :: "go_int \<Rightarrow> rat" where
  "float64 x = round53 (of_int (sint x))"

definition float_sub :: "rat \<Rightarrow> rat \<Rightarrow> rat" where
  "float_sub a b = round53 (a - b)"

definition float_div :: "rat \<Rightarrow> rat \<Rightarrow> rat" where
  "float_div a b = round53 (a / b)"

text \<open>
  The progress bar is the third-party component \<open>progress.Model\<close>. The program writes
  its field \<open>Width\<close>, reads its target through \<open>Percent()\<close> and sets it through
  \<open>SetPercent\<close>, which stores the argument clamped to the unit interval
  (\<open>math.Max(0, math.Min(1, p))\<close>, which does not round). Only these two fields are
  tracked; the state of the easing animation is not.
\<close>

record progress_Model =
  Width :: go_int
  targetPercent :: rat

definition Percent :: "progress_Model \<Rightarrow> rat" where
  "Percent p = targetPercent p"

definition SetPercent :: "rat \<Rightarrow> progress_Model \<Rightarrow> progress_Model" where
  "SetPercent v p = p\<lparr>targetPercent := max 0 (min 1 v)\<rparr>"

text \<open>\<open>progress.New\<close>: the default width of the component is 40, its target 0.\<close>

definition progress_New :: progress_Model where
  "progress_New = \<lparr>Width = 40, targetPercent = 0\<rparr>"

text \<open>
  A \<open>time.Time\<close> is an instant counted in nanoseconds, the zero value being instant 0;
  a \<open>time.Duration\<close> is a 64-bit count of nanoseconds.
\<close>

definition Second :: go_int where
  "Second = 1000000000"

definition Time_Add :: "int \<Rightarrow> go_int \<Rightarrow> int" where
  "Time_Add t d = t + sint d"

record model =
  progress :: progress_Model
  timeLeft :: go_int
  timeType :: string
  cursor :: go_int
  choice :: string
  pause :: bool
  endTime :: int

definition NewModel :: model where
  "NewModel = \<lparr>progress = progress_New, timeLeft = 0, timeType = WORKTIME, cursor = 0,
     choice = [], pause = False, endTime = 0\<rparr>"

text \<open>
  Messages: a key press carries the key's name (\<open>msg.String()\<close>), a resize the new
  width and height. \<open>OtherMsg\<close> stands for every message type the switch does not
  name.
\<close>

datatype msg =
  KeyMsg string
  | WindowSizeMsg go_int go_int
  | tickMsg
  | FrameMsg
  | OtherMsg

text \<open>
  What a call of \<open>Update\<close> does to the outside: the two calls it makes while it runs
  (\<open>PlayNotification()\<close> and \<open>notify(title, message)\<close>), in order, and the command it
  hands back to the event loop (\<open>None\<close> for \<open>nil\<close>). \<open>nextFrame\<close> is the command that
  \<open>SetPercent\<close> returns, \<open>progressCmd\<close> the one that the component's own \<open>Update\<close>
  returns for a frame.
\<close>

datatype effect = PlayNotification | notify string string

datatype cmd = Quit | tickCmd | nextFrame | progressCmd | Batch "cmd list"

datatype error = IndexOutOfRange

section \<open>Update\<close>

text \<open>\<open>choices[i]\<close> panics when the index is outside the slice.\<close>

definition choices_at :: "go_int \<Rightarrow> error + string" where
  "choices_at i =
     (if 0 \<le>s i \<and> i <s word_of_nat (length choices) then Inr (choices ! unat i)
      else Inl IndexOutOfRange)"

text \<open>The \<open>enter\<close> key: the inner switch over \<open>choices[m.cursor]\<close>.\<close>

definition Update_enter :: "int \<Rightarrow> model \<Rightarrow> error + model" where
  "Update_enter now m =
     (case choices_at (cursor m) of
        Inl e \<Rightarrow> Inl e
      | Inr c \<Rightarrow>
          if c = WORKTIME then
            (let m1 = m\<lparr>timeLeft := work\<rparr>;
                 m2 = m1\<lparr>timeType := WORKTIME\<rparr>
             in Inr (m2\<lparr>endTime := Time_Add now (timeLeft m2 * Second)\<rparr>))
          else if c = RESTTIME then
            (let m1 = m\<lparr>timeLeft := rest\<rparr>;
                 m2 = m1\<lparr>timeType := RESTTIME\<rparr>
             in Inr (m2\<lparr>endTime := Time_Add now (timeLeft m2 * Second)\<rparr>))
          else Inr m)"

definition cursor_down :: "model \<Rightarrow> model" where
  "cursor_down m =
     (let m1 = m\<lparr>cursor := cursor m + 1\<rparr>
      in if word_of_nat (length choices) \<le>s cursor m1 then m1\<lparr>cursor := 0\<rparr> else m1)"

definition cursor_up :: "model \<Rightarrow> model" where
  "cursor_up m =
     (let m1 = m\<lparr>cursor := cursor m - 1\<rparr>
      in if cursor m1 <s 0 then m1\<lparr>cursor := word_of_nat (length choices) - 1\<rparr> else m1)"

definition toggle_pause :: "int \<Rightarrow> model \<Rightarrow> model" where
  "toggle_pause now m =
     m\<lparr>endTime := Time_Add now (timeLeft m * Second), pause := \<not> pause m\<rparr>"

definition reset :: "model \<Rightarrow> model" where
  "reset m = m\<lparr>timeLeft := 0, pause := False\<rparr>"

text \<open>The \<open>tea.KeyMsg\<close> case: the switch over the key's name.\<close>

definition Update_key ::
  "int \<Rightarrow> string \<Rightarrow> model \<Rightarrow> error + (model \<times> effect list \<times> cmd option)" where
  "Update_key now k m =
     (if k = ''ctrl+c'' \<or> k = ''q'' then Inr (m, [], Some Quit)
      else if k = ''enter'' then
        (case Update_enter now m of Inl e \<Rightarrow> Inl e | Inr m' \<Rightarrow> Inr (m', [], None))
      else if k = ''down'' \<or> k = ''j'' then Inr (cursor_down m, [], None)
      else if k = '' '' then Inr (toggle_pause now m, [], None)
      else if k = ''esc'' then Inr (reset m, [], None)
      else if k = ''up'' \<or> k = ''k'' then Inr (cursor_up m, [], None)
      else Inr (m, [], None))"

text \<open>The \<open>tea.WindowSizeMsg\<close> case.\<close>

definition resize :: "go_int \<Rightarrow> model \<Rightarrow> model" where
  "resize w m =
     (let p1 = (progress m)\<lparr>Width := w - padding * 2 - 4\<rparr>
      in m\<lparr>progress := (if maxWidth <s Width p1 then p1\<lparr>Width := maxWidth\<rparr> else p1)\<rparr>)"

text \<open>
  The \<open>tickMsg\<close> case. The completion test reads the model as it is on entry; the
  decrement and the new target come after it.
\<close>

definition tick_effects :: "model \<Rightarrow> effect list" where
  "tick_effects m =
     (if Percent (progress m) = 1 \<and> timeLeft m = 0
      then [PlayNotification, notify (''Time to '' @ timeType m @ '' is left'') []]
      else [])"

definition tick_percent :: "model \<Rightarrow> rat" where
  "tick_percent m =
     (let percent = 0;
          percent = (if timeType m = WORKTIME
                     then float_sub 1 (float_div (float64 (timeLeft m)) (float64 work))
                     else percent);
          percent = (if timeType m = RESTTIME
                     then float_sub 1 (float_div (float64 (timeLeft m)) (float64 rest))
                     else percent)
      in percent)"

definition Update_tick :: "model \<Rightarrow> model \<times> effect list \<times> cmd option" where
  "Update_tick m =
     (if pause m then (m, [], Some tickCmd)
      else
        (let effs = tick_effects m;
             m1 = m\<lparr>timeLeft := timeLeft m - 1\<rparr>;
             m2 = m1\<lparr>progress := SetPercent (tick_percent m1) (progress m1)\<rparr>
         in (m2, effs, Some (Batch [tickCmd, nextFrame]))))"

text \<open>
  \<open>Update\<close>, by the type of the message. \<open>now\<close> is what \<open>time.Now()\<close> returns during
  the call. A frame message changes the animation state of the progress bar only,
  which is not tracked.
\<close>

fun Update :: "int \<Rightarrow> msg \<Rightarrow> model \<Rightarrow> error + (model \<times> effect list \<times> cmd option)" where
  "Update now (KeyMsg k) m = Update_key now k m"
| "Update now (WindowSizeMsg w h) m = Inr (resize w m, [], None)"
| "Update now tickMsg m = Inr (Update_tick m)"
| "Update now FrameMsg m = Inr (m, [], Some progressCmd)"
| "Update now OtherMsg m = Inr (m, [], None)"

text \<open>
  The event loop: messages are handled one at a time, each with the clock reading of
  its call; a panic ends the run with the error, the \<open>Quit\<close> command ends it with the
  model as it is. The calls made to the outside are collected in order.
\<close>

fun run :: "(int \<times> msg) list \<Rightarrow> model \<Rightarrow> error + (model \<times> effect list)" where
  "run [] m = Inr (m, [])"
| "run ((now, e) # es) m =
     (case Update now e m of
        Inl err \<Rightarrow> Inl err
      | Inr (m', effs, c) \<Rightarrow>
          if c = Some Quit then Inr (m', effs)
          else (case run es m' of
                  Inl err \<Rightarrow> Inl err
                | Inr (m'', effs') \<Rightarrow> Inr (m'', effs @ effs')))"

section \<open>View\<close>

text \<open>
  \<open>fmt.Sprintf("%02d", n)\<close>: decimal, padded with zeros to two characters, the sign
  counting as one of them.
\<close>

fun decimal :: "nat \<Rightarrow> string" where
  "decimal n =
     (if n < 10 then [''0123456789'' ! n]
      else decimal (n div 10) @ [''0123456789'' ! (n mod 10)])"

declare decimal.simps [simp del]

definition zero_pad :: "nat \<Rightarrow> string \<Rightarrow> string" where
  "zero_pad w s = replicate (w - length s) CHR ''0'' @ s"

definition fmt_02d :: "int \<Rightarrow> string" where
  "fmt_02d n =
     (if n < 0 then CHR ''-'' # zero_pad 1 (decimal (nat (- n)))
      else zero_pad 2 (decimal (nat n)))"

text \<open>Go's \<open>/\<close> and \<open>%\<close> on integers truncate towards zero.\<close>

definition go_div :: "go_int \<Rightarrow> go_int \<Rightarrow> go_int" where
  "go_div a b = word_of_int (sint a sdiv sint b)"

definition go_mod :: "go_int \<Rightarrow> go_int \<Rightarrow> go_int" where
  "go_mod a b = word_of_int (sint a smod sint b)"

text \<open>
  The string literals that are not ASCII, as the bytes of their UTF-8 encoding:
  the bullet of the marked menu line, and the play and pause glyphs.
\<close>

definition bullet_mark :: string where
  "bullet_mark = [CHR ''['', CHR 0xE2, CHR 0x80, CHR 0xA2, CHR '']'', CHR '' '']"

definition play_glyph :: string where
  "play_glyph = [CHR 0xE2, CHR 0x96, CHR 0xB6, CHR 0xEF, CHR 0xB8, CHR 0x8F]"

definition pause_glyph :: string where
  "pause_glyph = [CHR 0xE2, CHR 0x8F, CHR 0xB8, CHR 0xEF, CHR 0xB8, CHR 0x8F]"

text \<open>One pass of the loop over the choices: the line of choice \<open>i\<close>.\<close>

definition menu_line :: "model \<Rightarrow> nat \<Rightarrow> string" where
  "menu_line m i =
     (if cursor m = word_of_nat i then bullet_mark else ''[ ] '')
     @ choices ! i
     @ (let totalTime = mapping_get (choices ! i);
            minutes = go_div (go_mod totalTime 3600) 60
        in '' ('' @ fmt_02d (sint minutes) @ ''m)'')
     @ [CHR 0x0A]"

definition menu_view :: "model \<Rightarrow> string" where
  "menu_view m =
     foldl (\<lambda>s i. s @ menu_line m i) (''Choose time type:'' @ [CHR 0x0A]) [0..<length choices]
     @ [CHR 0x0A] @ ''(press q to quit)'' @ [CHR 0x0A]"

text \<open>
  The countdown layout. The rendering of the progress bar, the clock format of
  \<open>endTime\<close> and the style of the help line belong to libraries; they are the
  parameters \<open>bar\<close>, \<open>clock\<close> and \<open>helpStyle\<close>.
\<close>

definition countdown_view ::
  "(progress_Model \<Rightarrow> string) \<Rightarrow> (int \<Rightarrow> string) \<Rightarrow> (string \<Rightarrow> string) \<Rightarrow> model \<Rightarrow> string" where
  "countdown_view bar clock helpStyle m =
     (let pad = replicate (unat padding) CHR '' '';
          minutes = go_div (go_mod (timeLeft m) 3600) 60;
          seconds = timeLeft m - minutes * 60;
          pause = (if pause m then pause_glyph else play_glyph)
      in [CHR 0x0A]
         @ pad @ timeType m @ [CHR 0x0A, CHR 0x0A]
         @ pad @ bar (progress m) @ [CHR 0x0A, CHR 0x0A]
         @ pad @ (fmt_02d (sint minutes) @ ''m'' @ fmt_02d (sint seconds) @ ''s -> ''
                  @ clock (endTime m) @ '' '' @ pause)
         @ pad @ helpStyle ''Press 'q' key to quit'')"

definition View ::
  "(progress_Model \<Rightarrow> string) \<Rightarrow> (int \<Rightarrow> string) \<Rightarrow> (string \<Rightarrow> string) \<Rightarrow> model \<Rightarrow> string" where
  "View bar clock helpStyle m =
     (if timeLeft m \<le>s 0 then menu_view m else countdown_view bar clock helpStyle m)"

text \<open>
  The spec's names for what the source keeps implicitly: the duration configured for
  the current \<open>timeType\<close> (the divisor of the tick handler, the entry of \<open>mapping\<close>).
\<close>

definition totalSeconds :: "model \<Rightarrow> go_int" where
  "totalSeconds m = mapping_get (timeType m)"

text \<open>The keys that move the cursor, and the number of choices the cursor ranges over.\<close>

definition cursor_key :: "msg \<Rightarrow> bool" where
  "cursor_key e =
     (e = KeyMsg ''down'' \<or> e = KeyMsg ''j'' \<or> e = KeyMsg ''up'' \<or> e = KeyMsg ''k'')"

definition numChoices :: go_int where
  "numChoices = word_of_nat (length choices)"


text \<open>
  The invariant of a run after \<open>k\<close> events: the type is one of the two choices, the
  cursor is on one of them, the remaining time is at most the total and not below
  \<open>- k\<close>.
\<close>

definition run_inv :: "nat \<Rightarrow> model \<Rightarrow> bool" where
  "run_inv k m =
     ((timeType m = WORKTIME \<or> timeType m = RESTTIME)
      \<and> (cursor m = 0 \<or> cursor m = 1)
      \<and> - int k \<le> sint (timeLeft m)
      \<and> timeLeft m \<le>s totalSeconds m)"


section \<open>The constants and the choice under the cursor\<close>

lemma choices_at_0: "choices_at 0 = Inr WORKTIME"
  by (simp add: choices_at_def choices_def word_sle_eq word_sless_alt)

lemma choices_at_1: "choices_at 1 = Inr RESTTIME"
  by (simp add: choices_at_def choices_def word_sle_eq word_sless_alt)

lemma names_distinct: "WORKTIME \<noteq> RESTTIME"
  by (simp add: WORKTIME_def RESTTIME_def)

lemma mapping_get_WORKTIME: "mapping_get WORKTIME = 1500"
  by (simp add: mapping_get_def mapping_def work_def names_distinct)

lemma mapping_get_RESTTIME: "mapping_get RESTTIME = 300"
  by (simp add: mapping_get_def mapping_def rest_def)

lemma Update_enter_0:
  "cursor m = 0 \<Longrightarrow> Update_enter now m =
     Inr (m\<lparr>timeLeft := work, timeType := WORKTIME, endTime := Time_Add now (work * Second)\<rparr>)"
  by (simp add: Update_enter_def choices_at_0)

lemma Update_enter_1:
  "cursor m = 1 \<Longrightarrow> Update_enter now m =
     Inr (m\<lparr>timeLeft := rest, timeType := RESTTIME, endTime := Time_Add now (rest * Second)\<rparr>)"
  by (simp add: Update_enter_def choices_at_1 names_distinct [symmetric])

text \<open>
  Claim C1, as the code has it. In an idle state, one whose remaining time is at most 0
  so that the menu is shown, the \<open>enter\<close> key starts the choice under the cursor: with
  the cursor on \<open>work\<close> the type becomes \<open>work\<close> and the remaining and the total time
  1500, with the cursor on \<open>rest\<close> the type becomes \<open>rest\<close> and both times 300. The handler
  does not touch \<open>pause\<close>: the flag keeps the value it had.
\<close>

theorem select_idle:
  assumes "timeLeft m \<le>s 0" and "cursor m = 0 \<or> cursor m = 1"
  shows "\<exists>m'. Update now (KeyMsg ''enter'') m = Inr (m', [], None)
           \<and> (cursor m = 0 \<longrightarrow> timeType m' = WORKTIME \<and> timeLeft m' = 1500 \<and> totalSeconds m' = 1500)
           \<and> (cursor m = 1 \<longrightarrow> timeType m' = RESTTIME \<and> timeLeft m' = 300 \<and> totalSeconds m' = 300)
           \<and> pause m' = pause m"
  using assms(2)
  by (auto simp add: Update_key_def Update_enter_0 Update_enter_1 totalSeconds_def
      mapping_get_WORKTIME mapping_get_RESTTIME work_def rest_def)

theorem select_idle_witness:
  "timeLeft (NewModel\<lparr>timeLeft := - 1, cursor := 1\<rparr>) \<le>s 0
   \<and> cursor (NewModel\<lparr>timeLeft := - 1, cursor := 1\<rparr>) = 1
   \<and> (\<exists>m'. Update 0 (KeyMsg ''enter'') (NewModel\<lparr>timeLeft := - 1, cursor := 1\<rparr>)
            = Inr (m', [], None)
         \<and> timeType m' = RESTTIME \<and> timeLeft m' = 300 \<and> totalSeconds m' = 300
         \<and> pause m' = pause (NewModel\<lparr>timeLeft := - 1, cursor := 1\<rparr>))"
proof -
  have h1: "timeLeft (NewModel\<lparr>timeLeft := - 1, cursor := 1\<rparr>) \<le>s 0"
    by (simp add: word_sle_eq)
  have h2: "cursor (NewModel\<lparr>timeLeft := - 1, cursor := 1\<rparr>) = 0
            \<or> cursor (NewModel\<lparr>timeLeft := - 1, cursor := 1\<rparr>) = 1"
    by simp
  from select_idle [OF h1 h2, of 0] h1 show ?thesis by auto
qed

text \<open>
  Claim C1 as stated says that \<open>enter\<close> clears the pause flag. It does not: from the
  initial state, \<open>space\<close> sets the flag while the menu is shown, and \<open>enter\<close> then
  starts the countdown with the flag still set.
\<close>

theorem select_idle_keeps_pause:
  "timeLeft (NewModel\<lparr>pause := True\<rparr>) = 0 \<and> cursor (NewModel\<lparr>pause := True\<rparr>) = 0
   \<and> Update 7 (KeyMsg ''enter'') (NewModel\<lparr>pause := True\<rparr>)
       = Inr (NewModel\<lparr>timeLeft := 1500, pause := True, endTime := 1500000000007\<rparr>, [], None)
   \<and> run [(3, KeyMsg '' ''), (7, KeyMsg ''enter'')] NewModel
       = Inr (NewModel\<lparr>timeLeft := 1500, pause := True, endTime := 1500000000007\<rparr>, [])"
  by (simp add: NewModel_def Update_key_def Update_enter_0 toggle_pause_def work_def
      Time_Add_def Second_def)

text \<open>
  Claim C10. While a countdown is running (\<open>timeLeft > 0\<close>, type \<open>work\<close> or \<open>rest\<close>) the
  \<open>enter\<close> key still takes effect: the type becomes the choice under the cursor, the
  remaining time its full duration, which is also the total, and \<open>pause\<close> keeps its
  value.
\<close>

theorem select_active:
  assumes "0 <s timeLeft m" and "timeType m = WORKTIME \<or> timeType m = RESTTIME"
    and "cursor m = 0 \<or> cursor m = 1"
  shows "\<exists>m'. Update now (KeyMsg ''enter'') m = Inr (m', [], None)
           \<and> timeType m' = choices ! unat (cursor m)
           \<and> timeLeft m' = mapping_get (choices ! unat (cursor m))
           \<and> totalSeconds m' = timeLeft m'
           \<and> (cursor m = 0 \<longrightarrow> timeType m' = WORKTIME \<and> timeLeft m' = 1500)
           \<and> (cursor m = 1 \<longrightarrow> timeType m' = RESTTIME \<and> timeLeft m' = 300)
           \<and> pause m' = pause m"
  using assms(3)
  by (auto simp add: Update_key_def Update_enter_0 Update_enter_1 totalSeconds_def
      mapping_get_WORKTIME mapping_get_RESTTIME work_def rest_def choices_def)

theorem select_active_witness:
  "0 <s timeLeft (NewModel\<lparr>timeLeft := 700, cursor := 1\<rparr>)
   \<and> (\<exists>m'. Update 0 (KeyMsg ''enter'') (NewModel\<lparr>timeLeft := 700, cursor := 1\<rparr>)
            = Inr (m', [], None)
         \<and> timeType m' = RESTTIME \<and> timeLeft m' = 300 \<and> totalSeconds m' = timeLeft m'
         \<and> pause m' = pause (NewModel\<lparr>timeLeft := 700, cursor := 1\<rparr>))"
proof -
  have h1: "0 <s timeLeft (NewModel\<lparr>timeLeft := 700, cursor := 1\<rparr>)"
    by (simp add: word_sless_alt)
  have h2: "timeType (NewModel\<lparr>timeLeft := 700, cursor := 1\<rparr>) = WORKTIME
            \<or> timeType (NewModel\<lparr>timeLeft := 700, cursor := 1\<rparr>) = RESTTIME"
    by (simp add: NewModel_def)
  have h3: "cursor (NewModel\<lparr>timeLeft := 700, cursor := 1\<rparr>) = 0
            \<or> cursor (NewModel\<lparr>timeLeft := 700, cursor := 1\<rparr>) = 1"
    by simp
  from select_active [OF h1 h2 h3, of 0] h1 show ?thesis by auto
qed

text \<open>
  Claim C6. A tick that arrives while \<open>pause\<close> is set returns the model as it is, makes
  no call to the outside and hands back the command that arms the next tick.
\<close>

theorem tick_paused:
  "pause m \<Longrightarrow> Update now tickMsg m = Inr (m, [], Some tickCmd)"
  by (simp add: Update_tick_def)

theorem tick_paused_witness:
  "pause (NewModel\<lparr>timeLeft := 42, pause := True\<rparr>)
   \<and> Update 0 tickMsg (NewModel\<lparr>timeLeft := 42, pause := True\<rparr>)
       = Inr (NewModel\<lparr>timeLeft := 42, pause := True\<rparr>, [], Some tickCmd)"
  using tick_paused [of "NewModel\<lparr>timeLeft := 42, pause := True\<rparr>" 0] by simp

text \<open>
  Claim C8. Whatever the state, the \<open>esc\<close> key sets \<open>timeLeft\<close> to 0 and \<open>pause\<close> to
  false, and the view of the resulting model is the menu.
\<close>

theorem reset_menu:
  "\<exists>m'. Update now (KeyMsg ''esc'') m = Inr (m', [], None)
     \<and> timeLeft m' = 0 \<and> pause m' = False
     \<and> View bar clock helpStyle m' = menu_view m'"
  by (simp add: Update_key_def reset_def View_def)

lemma sint_sub8: 
  fixes w :: go_int
  assumes "- (2 ^ 63) + 8 \<le> sint w"
  shows "sint (w - 8) = sint w - 8"
proof -
  have "sint w < 2 ^ 63" using sint_lt [of w] by simp
  with assms show ?thesis
    by (simp add: sint_word_ariths signed_take_bit_int_eq_self)
qed

text \<open>
  Claim C9. A resize to width \<open>w\<close> sets the width of the progress bar to
  \<open>w - padding * 2 - 4\<close>, replaced by \<open>maxWidth\<close> when it is larger; the result is at most
  80, and it is the minimum of \<open>w - 8\<close> and 80 as integers whenever the subtraction does
  not wrap around.
\<close>

theorem resize_width:
  "Update now (WindowSizeMsg w h) m = Inr (resize w m, [], None)
   \<and> Width (progress (resize w m))
       = (if maxWidth <s w - padding * 2 - 4 then maxWidth else w - padding * 2 - 4)
   \<and> Width (progress (resize w m)) \<le>s 80
   \<and> (- (2 ^ 63) + 8 \<le> sint w \<longrightarrow> sint (Width (progress (resize w m))) = min (sint w - 8) 80)"
  using sint_sub8 [of w]
  by (auto simp add: resize_def Let_def maxWidth_def padding_def word_sle_eq word_sless_alt)

theorem resize_width_witness:
  "- (2 ^ 63) + 8 \<le> sint (100 :: go_int) \<and> Width (progress (resize 100 NewModel)) = 80"
  using resize_width [of 0 100 24 NewModel] 
  by (simp add: maxWidth_def padding_def)

section \<open>The cursor\<close>

lemma numChoices_2: "numChoices = 2"
  by (simp add: numChoices_def choices_def)

lemma cursor_range_iff:
  fixes c :: go_int
  shows "0 \<le>s c \<and> c <s 2 \<longleftrightarrow> c = 0 \<or> c = 1"
proof
  assume "0 \<le>s c \<and> c <s 2"
  then have "sint c = 0 \<or> sint c = 1"
    by (auto simp add: word_sle_eq word_sless_alt)
  moreover have "c = word_of_int (sint c)" by simp
  ultimately show "c = 0 \<or> c = 1" by (metis of_int_0 of_int_1)
next
  assume "c = 0 \<or> c = 1"
  then show "0 \<le>s c \<and> c <s 2"
    by (auto simp add: word_sle_eq word_sless_alt)
qed

lemma cursor_down_0: "cursor m = 0 \<Longrightarrow> cursor_down m = m\<lparr>cursor := 1\<rparr>"
  by (simp add: cursor_down_def choices_def word_sle_eq)

lemma cursor_down_1: "cursor m = 1 \<Longrightarrow> cursor_down m = m\<lparr>cursor := 0\<rparr>"
  by (simp add: cursor_down_def choices_def word_sle_eq)

lemma cursor_up_0: "cursor m = 0 \<Longrightarrow> cursor_up m = m\<lparr>cursor := 1\<rparr>"
  by (simp add: cursor_up_def choices_def word_sless_alt)

lemma cursor_up_1: "cursor m = 1 \<Longrightarrow> cursor_up m = m\<lparr>cursor := 0\<rparr>"
  by (simp add: cursor_up_def choices_def word_sless_alt)

lemma cursor_key_step:
  assumes "cursor m = 0 \<or> cursor m = 1" and "cursor_key e"
  shows "\<exists>m'. Update now e m = Inr (m', [], None) \<and> (cursor m' = 0 \<or> cursor m' = 1)"
  using assms
  by (auto simp add: cursor_key_def Update_key_def cursor_down_0 cursor_down_1
      cursor_up_0 cursor_up_1)

lemma cursor_keys_run:
  assumes "cursor m = 0 \<or> cursor m = 1" and "\<forall>(t, e) \<in> set evs. cursor_key e"
  shows "\<exists>m'. run evs m = Inr (m', []) \<and> (cursor m' = 0 \<or> cursor m' = 1)"
  using assms
proof (induction evs arbitrary: m)
  case Nil
  then show ?case by simp
next
  case (Cons x evs)
  obtain now e where x: "x = (now, e)" by (cases x)
  from Cons.prems x have "cursor_key e" by simp
  with Cons.prems(1) obtain m1 where
    m1: "Update now e m = Inr (m1, [], None)" "cursor m1 = 0 \<or> cursor m1 = 1"
    using cursor_key_step by blast
  from Cons.prems(2) have "\<forall>(t, e) \<in> set evs. cursor_key e" by simp
  with Cons.IH m1(2) obtain m' where
    "run evs m1 = Inr (m', [])" "cursor m' = 0 \<or> cursor m' = 1" by blast
  with m1(1) x show ?case by simp
qed

text \<open>
  Claim C7. From a state whose cursor is within \<open>[0, numChoices)\<close>, every sequence of
  cursor keys (\<open>down\<close>, \<open>j\<close>, \<open>up\<close>, \<open>k\<close>) runs without a panic and leaves the cursor
  within \<open>[0, numChoices)\<close>; up at 0 goes to \<open>numChoices - 1\<close> and down at
  \<open>numChoices - 1\<close> goes to 0.
\<close>

theorem cursor_in_range:
  assumes "0 \<le>s cursor m" and "cursor m <s numChoices"
    and "\<forall>(t, e) \<in> set evs. cursor_key e"
  shows "(\<exists>m'. run evs m = Inr (m', []) \<and> 0 \<le>s cursor m' \<and> cursor m' <s numChoices)
    \<and> (cursor m = 0 \<longrightarrow>
          Update now (KeyMsg ''up'') m = Inr (m\<lparr>cursor := numChoices - 1\<rparr>, [], None)
        \<and> Update now (KeyMsg ''k'') m = Inr (m\<lparr>cursor := numChoices - 1\<rparr>, [], None))
    \<and> (cursor m = numChoices - 1 \<longrightarrow>
          Update now (KeyMsg ''down'') m = Inr (m\<lparr>cursor := 0\<rparr>, [], None)
        \<and> Update now (KeyMsg ''j'') m = Inr (m\<lparr>cursor := 0\<rparr>, [], None))"
proof -
  from assms(1,2) have c: "cursor m = 0 \<or> cursor m = 1"
    using cursor_range_iff [of "cursor m"] by (simp add: numChoices_2)
  from cursor_keys_run [OF c assms(3)] obtain m' where
    "run evs m = Inr (m', [])" "cursor m' = 0 \<or> cursor m' = 1" by blast
  then have "\<exists>m'. run evs m = Inr (m', []) \<and> 0 \<le>s cursor m' \<and> cursor m' <s numChoices"
    using cursor_range_iff [of "cursor m'"] by (simp add: numChoices_2)
  moreover have "cursor m = 0 \<longrightarrow>
          Update now (KeyMsg ''up'') m = Inr (m\<lparr>cursor := numChoices - 1\<rparr>, [], None)
        \<and> Update now (KeyMsg ''k'') m = Inr (m\<lparr>cursor := numChoices - 1\<rparr>, [], None)"
    by (simp add: Update_key_def cursor_up_0 numChoices_2)
  moreover have "cursor m = numChoices - 1 \<longrightarrow>
          Update now (KeyMsg ''down'') m = Inr (m\<lparr>cursor := 0\<rparr>, [], None)
        \<and> Update now (KeyMsg ''j'') m = Inr (m\<lparr>cursor := 0\<rparr>, [], None)"
    by (simp add: Update_key_def cursor_down_1 numChoices_2)
  ultimately show ?thesis by blast
qed

theorem cursor_in_range_witness:
  "0 \<le>s cursor NewModel \<and> cursor NewModel <s numChoices
   \<and> (\<exists>m'. run [(0, KeyMsg ''up''), (1, KeyMsg ''j''), (2, KeyMsg ''down'')] NewModel = Inr (m', [])
           \<and> 0 \<le>s cursor m' \<and> cursor m' <s numChoices)
   \<and> Update 0 (KeyMsg ''up'') NewModel = Inr (NewModel\<lparr>cursor := numChoices - 1\<rparr>, [], None)
   \<and> Update 0 (KeyMsg ''k'') NewModel = Inr (NewModel\<lparr>cursor := numChoices - 1\<rparr>, [], None)"
proof -
  have h1: "0 \<le>s cursor NewModel" and h2: "cursor NewModel <s numChoices"
    by (simp_all add: NewModel_def numChoices_2 word_sless_alt)
  have h3: "\<forall>(t, e) \<in> set [(0::int, KeyMsg ''up''), (1, KeyMsg ''j''), (2, KeyMsg ''down'')]. cursor_key e"
    by (simp add: cursor_key_def)
  have h4: "cursor NewModel = 0"
    by (simp add: NewModel_def)
  note r = cursor_in_range [OF h1 h2 h3, of 0]
  from r have a: "\<exists>m'. run [(0, KeyMsg ''up''), (1, KeyMsg ''j''), (2, KeyMsg ''down'')] NewModel = Inr (m', [])
           \<and> 0 \<le>s cursor m' \<and> cursor m' <s numChoices"
    by (rule conjunct1)
  from r h4 have b: "Update 0 (KeyMsg ''up'') NewModel = Inr (NewModel\<lparr>cursor := numChoices - 1\<rparr>, [], None)
        \<and> Update 0 (KeyMsg ''k'') NewModel = Inr (NewModel\<lparr>cursor := numChoices - 1\<rparr>, [], None)"
    by (elim conjE) (erule mp)
  show ?thesis
    by (rule h1 h2 a b conjI)+
qed

section \<open>The remaining time over a run\<close>

lemma sint_dec:
  fixes x :: go_int
  assumes "- (2 ^ 63) < sint x"
  shows "sint (x - 1) = sint x - 1"
proof -
  have "sint x < 2 ^ 63" using sint_lt [of x] by simp
  with assms show ?thesis
    by (simp add: sint_word_ariths signed_take_bit_int_eq_self)
qed

lemma totalSeconds_cases:
  "timeType m = WORKTIME \<Longrightarrow> totalSeconds m = 1500"
  "timeType m = RESTTIME \<Longrightarrow> totalSeconds m = 300"
  by (simp_all add: totalSeconds_def mapping_get_WORKTIME mapping_get_RESTTIME)

lemma run_inv_mono: "run_inv k m \<Longrightarrow> k \<le> k' \<Longrightarrow> run_inv k' m"
  by (auto simp add: run_inv_def)

lemma run_inv_NewModel: "run_inv 0 NewModel"
  by (simp add: run_inv_def NewModel_def totalSeconds_def mapping_get_WORKTIME word_sle_eq)

lemma run_inv_tick:
  assumes "run_inv k m" and "k < 2 ^ 63"
  shows "run_inv (Suc k) (fst (Update_tick m))"
proof (cases "pause m")
  case True
  with assms(1) show ?thesis
    by (auto simp add: Update_tick_def intro: run_inv_mono)
next
  case False
  from assms have lo: "- (2 ^ 63) < sint (timeLeft m)"
    by (simp add: run_inv_def)
  have tl: "timeLeft (fst (Update_tick m)) = timeLeft m - 1"
    and ty: "timeType (fst (Update_tick m)) = timeType m"
    and cu: "cursor (fst (Update_tick m)) = cursor m"
    using False by (simp_all add: Update_tick_def Let_def)
  have tot: "totalSeconds (fst (Update_tick m)) = totalSeconds m"
    by (simp add: totalSeconds_def ty)
  from assms(1) show ?thesis
    by (simp add: run_inv_def tl ty cu tot word_sle_eq sint_dec [OF lo])
qed

lemma run_inv_key:
  assumes "run_inv k m"
  shows "\<exists>m' c. Update_key now key m = Inr (m', [], c) \<and> run_inv (Suc k) m'"
proof -
  from assms have c: "cursor m = 0 \<or> cursor m = 1" by (simp add: run_inv_def)
  have enter: "\<exists>m'. Update_enter now m = Inr m' \<and> run_inv (Suc k) m'"
    using c assms
    by (auto simp add: Update_enter_0 Update_enter_1 run_inv_def totalSeconds_def
        mapping_get_WORKTIME mapping_get_RESTTIME work_def rest_def word_sle_eq)
  have down: "run_inv (Suc k) (cursor_down m)"
    using c assms by (auto simp add: cursor_down_0 cursor_down_1 run_inv_def totalSeconds_def)
  have up: "run_inv (Suc k) (cursor_up m)"
    using c assms by (auto simp add: cursor_up_0 cursor_up_1 run_inv_def totalSeconds_def)
  have tog: "run_inv (Suc k) (toggle_pause now m)"
    using assms by (auto simp add: toggle_pause_def run_inv_def totalSeconds_def)
  have res: "run_inv (Suc k) (reset m)"
    using assms
    by (auto simp add: reset_def run_inv_def totalSeconds_def
        mapping_get_WORKTIME mapping_get_RESTTIME word_sle_eq)
  have same: "run_inv (Suc k) m"
    using assms by (rule run_inv_mono) simp
  from enter obtain me where me: "Update_enter now m = Inr me" "run_inv (Suc k) me" by blast
  show ?thesis
    unfolding Update_key_def using me down up tog res same by simp
qed

lemma run_inv_step:
  assumes "run_inv k m" and "k < 2 ^ 63"
  shows "\<exists>m' effs c. Update now e m = Inr (m', effs, c) \<and> run_inv (Suc k) m'"
proof (cases e)
  case (KeyMsg key)
  with run_inv_key [OF assms(1), of now key] show ?thesis by auto
next
  case (WindowSizeMsg w h)
  have "run_inv (Suc k) (resize w m)"
    using assms(1) by (auto simp add: resize_def Let_def run_inv_def totalSeconds_def)
  with WindowSizeMsg show ?thesis by simp
next
  case tickMsg
  obtain m' effs c where u: "Update_tick m = (m', effs, c)" by (cases "Update_tick m")
  with run_inv_tick [OF assms] have "run_inv (Suc k) m'" by simp
  with tickMsg u show ?thesis by simp
next
  case FrameMsg
  with assms(1) show ?thesis by (auto intro: run_inv_mono)
next
  case OtherMsg
  with assms(1) show ?thesis by (auto intro: run_inv_mono)
qed

lemma run_inv_run:
  assumes "run_inv k m" and "k + length evs \<le> 2 ^ 63"
  shows "\<exists>m' effs. run evs m = Inr (m', effs) \<and> run_inv (k + length evs) m'"
  using assms
proof (induction evs arbitrary: k m)
  case Nil
  then show ?case by simp
next
  case (Cons x evs)
  obtain now e where x: "x = (now, e)" by (cases x)
  from Cons.prems(2) have k: "k < 2 ^ 63" by simp
  from run_inv_step [OF Cons.prems(1) k, of now e] obtain m1 effs1 c1 where
    s: "Update now e m = Inr (m1, effs1, c1)" "run_inv (Suc k) m1" by blast
  show ?case
  proof (cases "c1 = Some Quit")
    case True
    have "run_inv (k + length (x # evs)) m1"
      using s(2) by (rule run_inv_mono) simp
    with s(1) x True show ?thesis by simp
  next
    case False
    from Cons.prems(2) have "Suc k + length evs \<le> 2 ^ 63" by simp
    from Cons.IH [OF s(2) this] obtain m' effs' where
      r: "run evs m1 = Inr (m', effs')" "run_inv (Suc k + length evs) m'" by blast
    with s(1) x False show ?thesis by simp
  qed
qed

text \<open>
  Claim C2, as the code has it. Every run of fewer than \<open>2 ^ 63\<close> events from the
  initial state ends without a panic in a state whose remaining time is at most the
  total time of its type, and not below minus the number of events. The bound on the
  length is where the 64-bit counter would wrap around. The remaining time is not
  bounded below by 0: a tick that is not paused decrements it whatever its value.
\<close>

theorem remaining_bounded:
  assumes "length evs < 2 ^ 63"
  shows "\<exists>m effs. run evs NewModel = Inr (m, effs)
           \<and> timeLeft m \<le>s totalSeconds m
           \<and> - int (length evs) \<le> sint (timeLeft m)"
proof -
  from assms have "0 + length evs \<le> 2 ^ 63" by simp
  from run_inv_run [OF run_inv_NewModel this] show ?thesis
    by (auto simp add: run_inv_def)
qed

theorem remaining_bounded_witness:
  "length [(0::int, KeyMsg ''enter''), (1, tickMsg)] < 2 ^ 63
   \<and> (\<exists>m effs. run [(0, KeyMsg ''enter''), (1, tickMsg)] NewModel = Inr (m, effs)
           \<and> timeLeft m \<le>s totalSeconds m
           \<and> - int (length [(0::int, KeyMsg ''enter''), (1, tickMsg)]) \<le> sint (timeLeft m))"
proof -
  have h: "length [(0::int, KeyMsg ''enter''), (1, tickMsg)] < 2 ^ 63" by simp
  show ?thesis
    by (rule h remaining_bounded [OF h] conjI)+
qed

text \<open>
  Claim C2 as stated says that the remaining time is never negative in a reachable
  state. One tick from the initial state takes it from 0 to \<open>- 1\<close>.
\<close>

theorem remaining_negative:
  "run [(0, tickMsg)] NewModel
     = Inr (NewModel\<lparr>progress := progress_New\<lparr>targetPercent := 1\<rparr>, timeLeft := - 1\<rparr>, [])
   \<and> sint (timeLeft (NewModel\<lparr>progress := progress_New\<lparr>targetPercent := 1\<rparr>, timeLeft := - 1\<rparr>)) = - 1"
  by code_simp

section \<open>Rounding to a 53-bit significand\<close>

lemma round_even_err: "\<bar>of_int (round_even y) - y\<bar> \<le> 1 / 2"
  unfolding round_even_def Let_def by (auto simp: abs_if) linarith+

lemma round_even_of_int: "round_even (of_int n) = n"
  by (simp add: round_even_def)

lemma exponent_le:
  assumes "x \<noteq> 0"
  shows "2 powi (exponent x) \<le> \<bar>x\<bar>"
proof -
  obtain a b where q: "quotient_of \<bar>x\<bar> = (a, b)" by (cases "quotient_of \<bar>x\<bar>")
  then have b: "0 < b" and r: "\<bar>x\<bar> = of_int a / of_int b"
    by (simp_all add: quotient_of_denom_pos quotient_of_div)
  from assms have "0 < \<bar>x\<bar>" by simp
  with r b have a: "0 < a" by (simp add: zero_less_divide_iff)
  let ?e0 = "bitlen a - bitlen b"
  show ?thesis
  proof (cases "2 powi ?e0 \<le> \<bar>x\<bar>")
    case True
    then show ?thesis by (simp add: exponent_def q)
  next
    case False
    from bitlen_bounds [OF a] have la: "2 ^ nat (bitlen a - 1) \<le> a" by simp
    from bitlen_bounds [OF b] have lb: "b < 2 ^ nat (bitlen b)" by simp
    have ba: "1 \<le> bitlen a" using a by (simp add: bitlen_alt_def)
    have bb: "0 \<le> bitlen b" by (rule bitlen_nonneg)
    have "(2::rat) powi (?e0 - 1) = 2 powi (bitlen a - 1) / 2 powi (bitlen b)"
      by (simp add: power_int_diff)
    also have "(2::rat) powi (bitlen a - 1) = 2 ^ nat (bitlen a - 1)"
      using ba by (simp add: power_int_def)
    also have "(2::rat) powi (bitlen b) = 2 ^ nat (bitlen b)"
      using bb by (simp add: power_int_def)
    also have "(2::rat) ^ nat (bitlen a - 1) / 2 ^ nat (bitlen b) \<le> of_int a / of_int b"
    proof (rule frac_le)
      show "(0::rat) \<le> of_int a" using a by simp
      have "(of_int (2 ^ nat (bitlen a - 1)) :: rat) \<le> of_int a"
        using la by (simp only: of_int_le_iff)
      then show "(2::rat) ^ nat (bitlen a - 1) \<le> of_int a" by simp
      show "(0::rat) < of_int b" using b by simp
      have "(of_int b :: rat) \<le> of_int (2 ^ nat (bitlen b))"
        using lb by (simp only: of_int_le_iff)
      then show "(of_int b :: rat) \<le> 2 ^ nat (bitlen b)" by simp
    qed
    finally have "(2::rat) powi (?e0 - 1) \<le> \<bar>x\<bar>" by (simp add: r)
    with False show ?thesis by (simp add: exponent_def q)
  qed
qed

lemma exponent_less:
  assumes "x \<noteq> 0"
  shows "\<bar>x\<bar> < 2 powi (exponent x + 1)"
proof -
  obtain a b where q: "quotient_of \<bar>x\<bar> = (a, b)" by (cases "quotient_of \<bar>x\<bar>")
  then have b: "0 < b" and r: "\<bar>x\<bar> = of_int a / of_int b"
    by (simp_all add: quotient_of_denom_pos quotient_of_div)
  from assms have "0 < \<bar>x\<bar>" by simp
  with r b have a: "0 < a" by (simp add: zero_less_divide_iff)
  let ?e0 = "bitlen a - bitlen b"
  show ?thesis
  proof (cases "2 powi ?e0 \<le> \<bar>x\<bar>")
    case False
    then show ?thesis by (simp add: exponent_def q)
  next
    case True
    from bitlen_bounds [OF a] have la: "a < 2 ^ nat (bitlen a)" by simp
    from bitlen_bounds [OF b] have lb: "2 ^ nat (bitlen b - 1) \<le> b" by simp
    have ba: "0 \<le> bitlen a" by (rule bitlen_nonneg)
    have bb: "1 \<le> bitlen b" using b by (simp add: bitlen_alt_def)
    have "of_int a / of_int b < (2::rat) ^ nat (bitlen a) / 2 ^ nat (bitlen b - 1)"
    proof (rule frac_less)
      show "(0::rat) \<le> of_int a" using a by simp
      have "(of_int a :: rat) < of_int (2 ^ nat (bitlen a))"
        using la by (simp only: of_int_less_iff)
      then show "(of_int a :: rat) < 2 ^ nat (bitlen a)" by simp
      show "(0::rat) < 2 ^ nat (bitlen b - 1)" by simp
      have "(of_int (2 ^ nat (bitlen b - 1)) :: rat) \<le> of_int b"
        using lb by (simp only: of_int_le_iff)
      then show "(2::rat) ^ nat (bitlen b - 1) \<le> of_int b" by simp
    qed
    also have "(2::rat) ^ nat (bitlen a) = 2 powi (bitlen a)"
      using ba by (simp add: power_int_def)
    also have "(2::rat) ^ nat (bitlen b - 1) = 2 powi (bitlen b - 1)"
      using bb by (simp add: power_int_def)
    also have "(2::rat) powi (bitlen a) / 2 powi (bitlen b - 1) = 2 powi (?e0 + 1)"
      by (simp add: power_int_diff [symmetric] algebra_simps)
    finally have "\<bar>x\<bar> < 2 powi (?e0 + 1)" by (simp add: r)
    with True show ?thesis by (simp add: exponent_def q)
  qed
qed

lemma round53_0: "round53 0 = 0"
  by (simp add: round53_def)

lemma round53_err:
  "\<bar>round53 x - x\<bar> \<le> \<bar>x\<bar> / 2 ^ 53"
proof (cases "x = 0")
  case True
  then show ?thesis by (simp add: round53_def)
next
  case False
  define u :: rat where "u = 2 powi (exponent x - 52)"
  have u: "0 < u" by (simp add: u_def)
  have "round53 x - x = (of_int (round_even (x / u)) - x / u) * u"
    using False u by (simp add: round53_def u_def [symmetric] Let_def algebra_simps)
  then have "\<bar>round53 x - x\<bar> = \<bar>of_int (round_even (x / u)) - x / u\<bar> * u"
    using u by (simp add: abs_mult)
  also have "\<dots> \<le> 1 / 2 * u"
    using round_even_err [of "x / u"] u by (intro mult_right_mono) simp_all
  also have "1 / 2 * u = 2 powi (exponent x) / 2 ^ 53"
    by (simp add: u_def power_int_diff)
  also have "\<dots> \<le> \<bar>x\<bar> / 2 ^ 53"
    using exponent_le [OF False] by (intro divide_right_mono) simp_all
  finally show ?thesis .
qed

lemma round53_of_int:
  assumes "\<bar>k\<bar> < 2 ^ 53"
  shows "round53 (of_int k) = of_int k"
proof (cases "k = 0")
  case True
  then show ?thesis by (simp add: round53_def)
next
  case False
  let ?x = "of_int k :: rat"
  have nz: "?x \<noteq> 0" using False by simp
  define e where "e = exponent ?x"
  have "(2::rat) powi e \<le> \<bar>?x\<bar>" unfolding e_def by (rule exponent_le [OF nz])
  also have "\<bar>?x\<bar> < 2 ^ 53"
  proof -
    have "(of_int \<bar>k\<bar> :: rat) < of_int (2 ^ 53)" using assms by (simp only: of_int_less_iff)
    then show ?thesis by simp
  qed
  finally have "(2::rat) powi e < 2 powi 53" by simp
  then have "e < 53" by (rule power_int_le_imp_less_exp [rotated]) simp_all
  then have e: "0 \<le> 52 - e" by simp
  define n where "n = nat (52 - e)"
  have u: "(2::rat) powi (e - 52) = 1 / 2 ^ n"
  proof -
    have "e - 52 = - int n" using e by (simp add: n_def)
    then have "(2::rat) powi (e - 52) = 2 powi (- int n)" by (simp only:)
    also have "\<dots> = inverse (2 powi int n)" by (rule power_int_minus)
    finally show ?thesis by (simp add: inverse_eq_divide)
  qed
  have "?x / (2 powi (e - 52)) = of_int (k * 2 ^ n)"
    by (simp add: u)
  then have "round_even (?x / (2 powi (e - 52))) = k * 2 ^ n"
    by (simp only: round_even_of_int)
  then show ?thesis
    using nz by (simp add: round53_def e_def [symmetric] u)
qed

lemma float64_exact:
  assumes "\<bar>sint x\<bar> < 2 ^ 53"
  shows "float64 x = of_int (sint x)"
  unfolding float64_def using assms by (rule round53_of_int)

text \<open>
  The value that a tick stores for remaining time \<open>k\<close> of a total \<open>d\<close>: the quotient is
  rounded, and so is the difference from 1.
\<close>

lemma target_err:
  fixes k d :: int
  assumes k: "0 \<le> k" "k \<le> d" and d: "0 < d"
  shows "\<bar>float_sub 1 (float_div (of_int k) (of_int d)) - (1 - of_int k / of_int d)\<bar> \<le> 1 / 2 ^ 52"
proof -
  let ?x = "of_int k / of_int d :: rat"
  let ?q = "round53 ?x"
  have x0: "0 \<le> ?x" using k d by simp
  have x1: "?x \<le> 1" using k d by simp
  have eq: "\<bar>?q - ?x\<bar> \<le> \<bar>?x\<bar> / 2 ^ 53" by (rule round53_err)
  have "\<bar>?x\<bar> / 2 ^ 53 \<le> 1 / 2 ^ 53"
    using x0 x1 by (intro divide_right_mono) simp_all
  with eq have e1: "\<bar>?q - ?x\<bar> \<le> 1 / 2 ^ 53" by linarith
  from eq x0 have "0 \<le> ?q"
  proof -
    have "\<bar>?x\<bar> / 2 ^ 53 \<le> ?x" using x0 by (simp add: field_simps)
    with eq x0 show ?thesis by linarith
  qed
  moreover have c: "(1::rat) / 2 ^ 53 \<le> 1" by simp
  ultimately have y: "\<bar>1 - ?q\<bar> \<le> 1"
    using e1 x1 unfolding abs_le_iff by linarith
  have "\<bar>round53 (1 - ?q) - (1 - ?q)\<bar> \<le> \<bar>1 - ?q\<bar> / 2 ^ 53" by (rule round53_err)
  also have "\<dots> \<le> 1 / 2 ^ 53" using y by (intro divide_right_mono) simp_all
  finally have e2: "\<bar>round53 (1 - ?q) - (1 - ?q)\<bar> \<le> 1 / 2 ^ 53" .
  have "(1::rat) / 2 ^ 53 + 1 / 2 ^ 53 = 1 / 2 ^ 52" by simp
  with e1 e2 show ?thesis
    unfolding float_sub_def float_div_def abs_le_iff by linarith
qed

lemma target_0:
  assumes "d \<noteq> 0"
  shows "float_sub 1 (float_div 0 d) = 1"
proof -
  have "round53 (of_int 1) = of_int 1" by (rule round53_of_int) simp
  then show ?thesis by (simp add: float_sub_def float_div_def round53_0)
qed

section \<open>Ticks of a running countdown\<close>

lemma target_bounds:
  fixes k d :: int
  assumes k: "0 \<le> k" "k < d" and d: "d \<le> 1500"
  shows "0 \<le> float_sub 1 (float_div (of_int k) (of_int d))"
    and "float_sub 1 (float_div (of_int k) (of_int d)) \<le> 1"
    and "float_sub 1 (float_div (of_int k) (of_int d)) = 1 \<longleftrightarrow> k = 0"
proof -
  let ?T = "float_sub 1 (float_div (of_int k) (of_int d))"
  have dp: "0 < d" using k by simp
  have c: "(1::rat) / 2 ^ 52 < 1 / 1500" by simp
  have *: "0 \<le> ?T \<and> ?T \<le> 1 \<and> (?T = 1 \<longleftrightarrow> k = 0)"
  proof (cases "k = 0")
    case True
    have "float_sub 1 (float_div 0 (of_int d)) = 1"
      using dp by (intro target_0) simp
    with True show ?thesis by simp
  next
    case False
    with k have k1: "1 \<le> k" by simp
    have lo: "(1::rat) / 1500 \<le> of_int k / of_int d"
    proof (rule frac_le)
      show "(0::rat) \<le> of_int k" using k by simp
      show "(1::rat) \<le> of_int k" using k1 by simp
      show "(0::rat) < of_int d" using dp by simp
      show "(of_int d :: rat) \<le> 1500" using d by (simp add: of_int_le_numeral_iff)
    qed
    have "of_int k / (of_int d :: rat) \<le> (of_int d - 1) / of_int d"
      using k(2) dp by (intro divide_right_mono) simp_all
    also have "\<dots> = 1 - 1 / of_int d" using dp by (simp add: field_simps)
    finally have hi0: "of_int k / (of_int d :: rat) \<le> 1 - 1 / of_int d" .
    have "(1::rat) / 1500 \<le> 1 / of_int d"
      using dp d by (intro divide_left_mono) (simp_all add: of_int_le_numeral_iff)
    with hi0 have hi: "of_int k / (of_int d :: rat) \<le> 1 - 1 / 1500" by linarith
    from target_err [OF k(1) less_imp_le [OF k(2)] dp] lo hi c
    have "0 < ?T \<and> ?T < 1" unfolding abs_le_iff by linarith
    with False show ?thesis by simp
  qed
  from * show "0 \<le> ?T" by simp
  from * show "?T \<le> 1" by simp
  from * show "?T = 1 \<longleftrightarrow> k = 0" by simp
qed

lemma target_increases:
  fixes k d :: int
  assumes k: "0 < k" "k \<le> d" and d: "d \<le> 1500"
  shows "float_sub 1 (float_div (of_int k) (of_int d))
         < float_sub 1 (float_div (of_int (k - 1)) (of_int d))"
proof -
  have dp: "0 < d" using k by simp
  have c: "(1::rat) / 2 ^ 52 + 1 / 2 ^ 52 < 1 / 1500" by simp
  have "(1::rat) / 1500 \<le> 1 / of_int d"
    using dp d by (intro divide_left_mono) (simp_all add: of_int_le_numeral_iff)
  moreover have "of_int (k - 1) / (of_int d :: rat) = of_int k / of_int d - 1 / of_int d"
    by (simp add: diff_divide_distrib)
  moreover note target_err [OF less_imp_le [OF k(1)] k(2) dp]
  moreover have "\<bar>float_sub 1 (float_div (of_int (k - 1)) (of_int d))
                  - (1 - of_int (k - 1) / of_int d)\<bar> \<le> 1 / 2 ^ 52"
    using k dp by (intro target_err) simp_all
  ultimately show ?thesis using c unfolding abs_le_iff by linarith
qed

lemma totalSeconds_range:
  assumes "timeType m = WORKTIME \<or> timeType m = RESTTIME"
  shows "0 < sint (totalSeconds m)" and "sint (totalSeconds m) \<le> 1500"
  using assms by (auto simp add: totalSeconds_cases)

lemma tick_percent_total:
  assumes "timeType m = WORKTIME \<or> timeType m = RESTTIME"
  shows "tick_percent m
         = float_sub 1 (float_div (float64 (timeLeft m)) (float64 (totalSeconds m)))"
  using assms
  by (auto simp add: tick_percent_def Let_def totalSeconds_cases work_def rest_def names_distinct)

lemma tick_active:
  assumes np: "\<not> pause m"
    and ty: "timeType m = WORKTIME \<or> timeType m = RESTTIME"
    and pos: "0 <s timeLeft m"
    and le: "timeLeft m \<le>s totalSeconds m"
  shows "Update_tick m =
           (m\<lparr>timeLeft := timeLeft m - 1,
               progress := (progress m)\<lparr>targetPercent :=
                  float_sub 1 (float_div (float64 (timeLeft m - 1)) (float64 (totalSeconds m)))\<rparr>\<rparr>,
            [], Some (Batch [tickCmd, nextFrame]))"
    and "sint (timeLeft m - 1) = sint (timeLeft m) - 1"
    and "float64 (timeLeft m - 1) = of_int (sint (timeLeft m) - 1)"
    and "float64 (totalSeconds m) = of_int (sint (totalSeconds m))"
proof -
  from pos have p: "0 < sint (timeLeft m)" by (simp add: word_sless_alt)
  then show d: "sint (timeLeft m - 1) = sint (timeLeft m) - 1"
    by (intro sint_dec) simp
  from pos have nz: "timeLeft m \<noteq> 0" by (auto simp add: word_sless_alt)
  note r = totalSeconds_range [OF ty]
  from le have l: "sint (timeLeft m) \<le> sint (totalSeconds m)" by (simp add: word_sle_eq)
  have "\<bar>sint (timeLeft m - 1)\<bar> < 2 ^ 53"
    using p l r(2) by (simp add: d)
  then have "float64 (timeLeft m - 1) = of_int (sint (timeLeft m - 1))"
    by (rule float64_exact)
  then show fk: "float64 (timeLeft m - 1) = of_int (sint (timeLeft m) - 1)"
    by (simp only: d)
  have "\<bar>sint (totalSeconds m)\<bar> < 2 ^ 53" using r by simp
  then show fd: "float64 (totalSeconds m) = of_int (sint (totalSeconds m))"
    by (rule float64_exact)
  let ?m1 = "m\<lparr>timeLeft := timeLeft m - 1\<rparr>"
  let ?T = "float_sub 1 (float_div (float64 (timeLeft m - 1)) (float64 (totalSeconds m)))"
  have ty1: "timeType ?m1 = WORKTIME \<or> timeType ?m1 = RESTTIME" using ty by simp
  have tp: "tick_percent ?m1 = ?T"
    using tick_percent_total [OF ty1] by (simp add: totalSeconds_def)
  have k0: "0 \<le> sint (timeLeft m) - 1" and kd: "sint (timeLeft m) - 1 < sint (totalSeconds m)"
    using p l by simp_all
  note b = target_bounds [OF k0 kd r(2)]
  have "0 \<le> ?T" and "?T \<le> 1"
    using b(1) b(2) by (simp_all only: fk fd)
  then have clamp: "max 0 (min 1 ?T) = ?T"
    by (simp add: max_def min_def)
  show "Update_tick m =
           (m\<lparr>timeLeft := timeLeft m - 1,
               progress := (progress m)\<lparr>targetPercent := ?T\<rparr>\<rparr>,
            [], Some (Batch [tickCmd, nextFrame]))"
    using np nz by (simp add: Update_tick_def Let_def tick_effects_def SetPercent_def tp clamp)
qed

lemma tick_increases:
  assumes np: "\<not> pause m"
    and ty: "timeType m = WORKTIME \<or> timeType m = RESTTIME"
    and pos: "0 <s timeLeft m"
    and le: "timeLeft m \<le>s totalSeconds m"
    and pc: "Percent (progress m)
             = float_sub 1 (float_div (float64 (timeLeft m)) (float64 (totalSeconds m)))"
  shows "Percent (progress m) < Percent (progress (fst (Update_tick m)))"
    and "Percent (progress (fst (Update_tick m))) \<le> 1"
proof -
  note t = tick_active [OF np ty pos le]
  note r = totalSeconds_range [OF ty]
  from pos have p: "0 < sint (timeLeft m)" by (simp add: word_sless_alt)
  from le have l: "sint (timeLeft m) \<le> sint (totalSeconds m)" by (simp add: word_sle_eq)
  have "\<bar>sint (timeLeft m)\<bar> < 2 ^ 53" using p l r(2) by simp
  then have fk: "float64 (timeLeft m) = of_int (sint (timeLeft m))"
    by (rule float64_exact)
  have k0: "0 \<le> sint (timeLeft m) - 1" and kd: "sint (timeLeft m) - 1 < sint (totalSeconds m)"
    using p l by simp_all
  from target_increases [OF p l r(2)]
  show "Percent (progress m) < Percent (progress (fst (Update_tick m)))"
    by (simp add: pc [unfolded Percent_def] t(1) Percent_def fk t(3) t(4))
  from target_bounds(2) [OF k0 kd r(2)]
  show "Percent (progress (fst (Update_tick m))) \<le> 1"
    by (simp add: t(1) Percent_def t(3) t(4))
qed

lemma target_at_1499:
  "float_sub 1 (float_div (float64 1499) (float64 1500)) = 6004799503161 / 2 ^ 53"
  by code_simp

text \<open>
  Claim C4. In a state that is not paused, whose type is \<open>work\<close> or \<open>rest\<close> and whose
  remaining time is positive and at most the total, a tick makes no call to the
  outside, decrements the remaining time by exactly 1 and sets the progress target to
  \<open>1 - remaining / total\<close> for the new remaining time, as \<open>float64\<close> computes it: the two
  integers convert exactly, the quotient is rounded and so is the difference, and the
  value stored is within \<open>2 ^ - 52\<close> of the exact fraction. The target lies in the unit
  interval and is 1 exactly when the remaining time has reached 0; as long as time
  remains, the next tick sets a strictly larger target, still at most 1.
\<close>

theorem tick_counts_down:
  assumes np: "\<not> pause m"
    and ty: "timeType m = WORKTIME \<or> timeType m = RESTTIME"
    and pos: "0 <s timeLeft m"
    and le: "timeLeft m \<le>s totalSeconds m"
  shows "\<exists>m'. Update now tickMsg m = Inr (m', [], Some (Batch [tickCmd, nextFrame]))
           \<and> sint (timeLeft m') = sint (timeLeft m) - 1
           \<and> totalSeconds m' = totalSeconds m
           \<and> Percent (progress m')
               = float_sub 1 (float_div (float64 (timeLeft m')) (float64 (totalSeconds m')))
           \<and> float64 (timeLeft m') = of_int (sint (timeLeft m'))
           \<and> float64 (totalSeconds m') = of_int (sint (totalSeconds m'))
           \<and> \<bar>Percent (progress m')
                - (1 - of_int (sint (timeLeft m')) / of_int (sint (totalSeconds m')))\<bar> \<le> 1 / 2 ^ 52
           \<and> 0 \<le> Percent (progress m') \<and> Percent (progress m') \<le> 1
           \<and> (Percent (progress m') = 1 \<longleftrightarrow> timeLeft m' = 0)
           \<and> (0 <s timeLeft m' \<longrightarrow>
                (\<exists>m''. Update now' tickMsg m' = Inr (m'', [], Some (Batch [tickCmd, nextFrame]))
                   \<and> sint (timeLeft m'') = sint (timeLeft m') - 1
                   \<and> Percent (progress m') < Percent (progress m'')
                   \<and> Percent (progress m'') \<le> 1))"
proof -
  let ?T = "float_sub 1 (float_div (float64 (timeLeft m - 1)) (float64 (totalSeconds m)))"
  let ?m' = "m\<lparr>timeLeft := timeLeft m - 1, progress := (progress m)\<lparr>targetPercent := ?T\<rparr>\<rparr>"
  note t = tick_active [OF np ty pos le]
  note r = totalSeconds_range [OF ty]
  have tot: "totalSeconds ?m' = totalSeconds m" by (simp add: totalSeconds_def)
  from pos have p: "0 < sint (timeLeft m)" by (simp add: word_sless_alt)
  from le have l: "sint (timeLeft m) \<le> sint (totalSeconds m)" by (simp add: word_sle_eq)
  have k0: "0 \<le> sint (timeLeft m) - 1" and kd: "sint (timeLeft m) - 1 < sint (totalSeconds m)"
    using p l by simp_all
  note tb = target_bounds [OF k0 kd r(2)]
  note te = target_err [OF k0 less_imp_le [OF kd] r(1)]
  have a: "Update now tickMsg m = Inr (?m', [], Some (Batch [tickCmd, nextFrame]))"
    by (simp add: t(1))
  have b: "sint (timeLeft ?m') = sint (timeLeft m) - 1" by (simp add: t(2))
  have c: "Percent (progress ?m')
           = float_sub 1 (float_div (float64 (timeLeft ?m')) (float64 (totalSeconds ?m')))"
    by (simp add: Percent_def tot)
  have c1: "float64 (timeLeft ?m') = of_int (sint (timeLeft ?m'))"
    by (simp add: t(3) t(2))
  have c2: "float64 (totalSeconds ?m') = of_int (sint (totalSeconds ?m'))"
    unfolding tot by (fact t(4))
  have pt: "Percent (progress ?m')
            = float_sub 1 (float_div (of_int (sint (timeLeft m) - 1)) (of_int (sint (totalSeconds m))))"
    by (simp add: Percent_def t(3) t(4))
  have c3: "\<bar>Percent (progress ?m')
             - (1 - of_int (sint (timeLeft ?m')) / of_int (sint (totalSeconds ?m')))\<bar> \<le> 1 / 2 ^ 52"
    using te by (simp only: pt tot b)
  have d: "0 \<le> Percent (progress ?m')" "Percent (progress ?m') \<le> 1"
    using tb(1) tb(2) by (simp_all only: pt)
  have z: "sint (timeLeft m) - 1 = 0 \<longleftrightarrow> timeLeft m - 1 = 0"
  proof
    assume "sint (timeLeft m) - 1 = 0"
    then have "sint (timeLeft m - 1) = 0" by (simp add: t(2))
    moreover have "timeLeft m - 1 = word_of_int (sint (timeLeft m - 1))" by simp
    ultimately show "timeLeft m - 1 = 0" by (metis of_int_0)
  next
    assume "timeLeft m - 1 = 0"
    then have "sint (timeLeft m - 1) = 0" by simp
    then show "sint (timeLeft m) - 1 = 0" by (simp add: t(2))
  qed
  have e: "Percent (progress ?m') = 1 \<longleftrightarrow> timeLeft ?m' = 0"
    using tb(3) z by (simp only: pt) simp
  have f: "\<exists>m''. Update now' tickMsg ?m' = Inr (m'', [], Some (Batch [tickCmd, nextFrame]))
                   \<and> sint (timeLeft m'') = sint (timeLeft ?m') - 1
                   \<and> Percent (progress ?m') < Percent (progress m'')
                   \<and> Percent (progress m'') \<le> 1" if pos': "0 <s timeLeft ?m'"
  proof -
    have np': "\<not> pause ?m'" using np by simp
    have ty': "timeType ?m' = WORKTIME \<or> timeType ?m' = RESTTIME" using ty by simp
    have le': "timeLeft ?m' \<le>s totalSeconds ?m'"
      using le by (simp add: tot word_sle_eq t(2))
    note t' = tick_active [OF np' ty' pos' le']
    note i' = tick_increases [OF np' ty' pos' le' c]
    have u: "Update now' tickMsg ?m' = Inr (fst (Update_tick ?m'), [], Some (Batch [tickCmd, nextFrame]))"
      by (simp only: Update.simps t'(1) fst_conv)
    have v: "sint (timeLeft (fst (Update_tick ?m'))) = sint (timeLeft ?m') - 1"
      using t'(2) by (simp only: t'(1) fst_conv) simp
    from u v i' show ?thesis by blast
  qed
  from a b tot c c1 c2 c3 d e f show ?thesis by blast
qed

theorem tick_counts_down_witness:
  "0 <s timeLeft (NewModel\<lparr>timeLeft := 1500\<rparr>)
   \<and> timeLeft (NewModel\<lparr>timeLeft := 1500\<rparr>) \<le>s totalSeconds (NewModel\<lparr>timeLeft := 1500\<rparr>)
   \<and> (\<exists>m'. Update 0 tickMsg (NewModel\<lparr>timeLeft := 1500\<rparr>)
              = Inr (m', [], Some (Batch [tickCmd, nextFrame]))
           \<and> sint (timeLeft m') = 1499
           \<and> Percent (progress m')
               = float_sub 1 (float_div (float64 (timeLeft m')) (float64 (totalSeconds m')))
           \<and> Percent (progress m') \<le> 1)"
proof -
  let ?m = "NewModel\<lparr>timeLeft := 1500\<rparr>"
  have h1: "\<not> pause ?m" by (simp add: NewModel_def)
  have h2: "timeType ?m = WORKTIME \<or> timeType ?m = RESTTIME" by (simp add: NewModel_def)
  have h3: "0 <s timeLeft ?m" by (simp add: word_sless_alt)
  have h4: "timeLeft ?m \<le>s totalSeconds ?m"
    by (simp add: NewModel_def totalSeconds_def mapping_get_WORKTIME word_sle_eq)
  from tick_counts_down [OF h1 h2 h3 h4, of 0 1] h3 h4 show ?thesis by auto
qed

section \<open>The view\<close>

lemma minutes_WORKTIME:
  "fmt_02d (sint (go_div (go_mod (mapping_get WORKTIME) 3600) 60)) = ''25''"
  by (simp add: mapping_get_WORKTIME go_div_def go_mod_def fmt_02d_def zero_pad_def decimal.simps)

lemma minutes_RESTTIME:
  "fmt_02d (sint (go_div (go_mod (mapping_get RESTTIME) 3600) 60)) = ''05''"
  by (simp add: mapping_get_RESTTIME go_div_def go_mod_def fmt_02d_def zero_pad_def decimal.simps)

lemma menu_line_0:
  "menu_line m 0 = (if cursor m = 0 then bullet_mark else ''[ ] '') @ ''work (25m)'' @ [CHR 0x0A]"
proof -
  have "choices ! 0 = WORKTIME" by (simp add: choices_def)
  then show ?thesis
    by (simp add: menu_line_def minutes_WORKTIME) (simp add: WORKTIME_def)
qed

lemma menu_line_1:
  "menu_line m (Suc 0) = (if cursor m = 1 then bullet_mark else ''[ ] '') @ ''rest (05m)'' @ [CHR 0x0A]"
proof -
  have "choices ! Suc 0 = RESTTIME" by (simp add: choices_def)
  then show ?thesis
    by (simp add: menu_line_def minutes_RESTTIME) (simp add: RESTTIME_def)
qed

lemma menu_view_text:
  "menu_view m =
     ''Choose time type:'' @ [CHR 0x0A]
     @ (if cursor m = 0 then bullet_mark else ''[ ] '') @ ''work (25m)'' @ [CHR 0x0A]
     @ (if cursor m = 1 then bullet_mark else ''[ ] '') @ ''rest (05m)'' @ [CHR 0x0A]
     @ [CHR 0x0A] @ ''(press q to quit)'' @ [CHR 0x0A]"
proof -
  have "[0..<length choices] = [0, Suc 0]"
    by (simp add: choices_def upt_rec)
  then show ?thesis
    by (simp add: menu_view_def menu_line_0 menu_line_1)
qed

lemma countdown_view_text:
  "countdown_view bar clock helpStyle m =
     [CHR 0x0A] @ ''  '' @ timeType m @ [CHR 0x0A, CHR 0x0A]
     @ ''  '' @ bar (progress m) @ [CHR 0x0A, CHR 0x0A]
     @ ''  '' @ fmt_02d (sint (go_div (go_mod (timeLeft m) 3600) 60)) @ ''m''
     @ fmt_02d (sint (timeLeft m - go_div (go_mod (timeLeft m) 3600) 60 * 60)) @ ''s -> ''
     @ clock (endTime m) @ '' '' @ (if pause m then pause_glyph else play_glyph)
     @ ''  '' @ helpStyle ''Press 'q' key to quit''"
proof -
  have "unat padding = Suc (Suc 0)"
    by (simp add: padding_def)
  then have "replicate (unat padding) CHR '' '' = ''  ''"
    by simp
  then show ?thesis
    by (simp add: countdown_view_def Let_def)
qed

lemma views_differ: "menu_view m1 \<noteq> countdown_view bar clock helpStyle m2"
  by (simp add: menu_view_text countdown_view_text)

lemma sint_word_of_int_small:
  assumes "- (2 ^ 63) \<le> k" and "k < 2 ^ 63"
  shows "sint (word_of_int k :: go_int) = k"
  using assms by (simp add: sint_sbintrunc' signed_take_bit_int_eq_self)

lemma minutes_seconds:
  fixes t :: go_int
  assumes "0 <s t" and "t <s 3600"
  shows "sint (go_div (go_mod t 3600) 60) = sint t div 60"
    and "sint (t - go_div (go_mod t 3600) 60 * 60) = sint t mod 60"
proof -
  from assms have n: "0 < sint t" "sint t < 3600"
    by (simp_all add: word_sless_alt)
  have m1: "sint t smod 3600 = sint t"
    using n by (simp add: smod_int_alt_def sgn_if)
  have s1: "sint (word_of_int (sint t) :: go_int) = sint t" by simp
  have c1: "sint (3600 :: go_int) = 3600" and c2: "sint (60 :: go_int) = 60" by simp_all
  have d1: "sint t sdiv 60 = sint t div 60"
    using n by (simp add: signed_divide_int_def sgn_if)
  have q: "0 \<le> sint t div 60" "sint t div 60 < 60" using n by auto
  have sq: "sint (word_of_int (sint t div 60) :: go_int) = sint t div 60"
    using q by (intro sint_word_of_int_small) simp_all
  show a: "sint (go_div (go_mod t 3600) 60) = sint t div 60"
    by (simp only: go_div_def go_mod_def c1 c2 m1 s1 d1 sq)
  have g: "go_div (go_mod t 3600) 60 = word_of_int (sint t div 60)"
    by (simp only: go_div_def go_mod_def c1 c2 m1 s1 d1)
  have "t - word_of_int (sint t div 60) * 60 = (word_of_int (sint t - sint t div 60 * 60) :: go_int)"
    by simp
  also have "sint t - sint t div 60 * 60 = sint t mod 60"
    by (simp add: minus_div_mult_eq_mod)
  finally have "t - word_of_int (sint t div 60) * 60 = (word_of_int (sint t mod 60) :: go_int)" .
  moreover have "sint (word_of_int (sint t mod 60) :: go_int) = sint t mod 60"
  proof -
    have "0 \<le> sint t mod 60" "sint t mod 60 < 60" by simp_all
    then show ?thesis by (intro sint_word_of_int_small) simp_all
  qed
  ultimately show "sint (t - go_div (go_mod t 3600) 60 * 60) = sint t mod 60"
    by (simp only: g)
qed


text \<open>
  Claim C5, as the code has it. The view is the menu exactly when the remaining time
  is at most 0 (not only when it is 0), and the countdown layout exactly when it is
  positive. The menu lists both choices with their durations in minutes, the one
  under the cursor marked, and ends with the quit hint; the countdown layout shows the
  type, the progress bar, the remaining minutes and seconds, the play or pause glyph
  according to \<open>pause\<close>, and the quit hint. The two texts never coincide. Below one hour
  the two numbers shown are the remaining time divided by 60 and its remainder.
\<close>

theorem view_layout:
  "(View bar clock helpStyle m = menu_view m \<longleftrightarrow> timeLeft m \<le>s 0)
   \<and> (View bar clock helpStyle m = countdown_view bar clock helpStyle m \<longleftrightarrow> 0 <s timeLeft m)
   \<and> menu_view m =
       ''Choose time type:'' @ [CHR 0x0A]
       @ (if cursor m = 0 then bullet_mark else ''[ ] '') @ ''work (25m)'' @ [CHR 0x0A]
       @ (if cursor m = 1 then bullet_mark else ''[ ] '') @ ''rest (05m)'' @ [CHR 0x0A]
       @ [CHR 0x0A] @ ''(press q to quit)'' @ [CHR 0x0A]
   \<and> countdown_view bar clock helpStyle m =
       [CHR 0x0A] @ ''  '' @ timeType m @ [CHR 0x0A, CHR 0x0A]
       @ ''  '' @ bar (progress m) @ [CHR 0x0A, CHR 0x0A]
       @ ''  '' @ fmt_02d (sint (go_div (go_mod (timeLeft m) 3600) 60)) @ ''m''
       @ fmt_02d (sint (timeLeft m - go_div (go_mod (timeLeft m) 3600) 60 * 60)) @ ''s -> ''
       @ clock (endTime m) @ '' '' @ (if pause m then pause_glyph else play_glyph)
       @ ''  '' @ helpStyle ''Press 'q' key to quit''
   \<and> (0 <s timeLeft m \<and> timeLeft m <s 3600 \<longrightarrow>
         sint (go_div (go_mod (timeLeft m) 3600) 60) = sint (timeLeft m) div 60
       \<and> sint (timeLeft m - go_div (go_mod (timeLeft m) 3600) 60 * 60) = sint (timeLeft m) mod 60)"
proof -
  have d: "menu_view m \<noteq> countdown_view bar clock helpStyle m"
    by (rule views_differ)
  have n: "\<not> timeLeft m \<le>s 0 \<longleftrightarrow> 0 <s timeLeft m"
    by (simp add: word_sle_eq word_sless_alt not_le)
  have a: "View bar clock helpStyle m = menu_view m \<longleftrightarrow> timeLeft m \<le>s 0"
    using d by (auto simp add: View_def)
  have b: "View bar clock helpStyle m = countdown_view bar clock helpStyle m \<longleftrightarrow> 0 <s timeLeft m"
    using d n by (auto simp add: View_def)
  from a b menu_view_text [of m] countdown_view_text [of bar clock helpStyle m]
    minutes_seconds [of "timeLeft m"]
  show ?thesis by blast
qed

theorem view_layout_witness:
  "0 <s timeLeft (NewModel\<lparr>timeLeft := 299, timeType := RESTTIME\<rparr>)
   \<and> timeLeft (NewModel\<lparr>timeLeft := 299, timeType := RESTTIME\<rparr>) <s 3600
   \<and> sint (go_div (go_mod (timeLeft (NewModel\<lparr>timeLeft := 299, timeType := RESTTIME\<rparr>)) 3600) 60) = 4
   \<and> sint (timeLeft (NewModel\<lparr>timeLeft := 299, timeType := RESTTIME\<rparr>)
            - go_div (go_mod (timeLeft (NewModel\<lparr>timeLeft := 299, timeType := RESTTIME\<rparr>)) 3600) 60 * 60) = 59
   \<and> View (\<lambda>p. ''bar'') (\<lambda>t. ''12:00:00'') (\<lambda>s. s) (NewModel\<lparr>timeLeft := 299, timeType := RESTTIME\<rparr>)
       = countdown_view (\<lambda>p. ''bar'') (\<lambda>t. ''12:00:00'') (\<lambda>s. s)
           (NewModel\<lparr>timeLeft := 299, timeType := RESTTIME\<rparr>)"
proof -
  let ?m = "NewModel\<lparr>timeLeft := 299, timeType := RESTTIME\<rparr>"
  have h: "0 <s timeLeft ?m" "timeLeft ?m <s 3600"
    by (simp_all add: word_sless_alt)
  have s: "sint (timeLeft ?m) div 60 = 4" "sint (timeLeft ?m) mod 60 = 59"
    by simp_all
  note r = view_layout [of "\<lambda>p. ''bar''" "\<lambda>t. ''12:00:00''" "\<lambda>s. s" ?m]
  note b = r [THEN conjunct2, THEN conjunct1]
  note i = r [THEN conjunct2, THEN conjunct2, THEN conjunct2, THEN conjunct2]
  note ms = i [THEN mp, OF conjI [OF h]]
  have v: "View (\<lambda>p. ''bar'') (\<lambda>t. ''12:00:00'') (\<lambda>s. s) ?m
           = countdown_view (\<lambda>p. ''bar'') (\<lambda>t. ''12:00:00'') (\<lambda>s. s) ?m"
    using b h(1) by (rule iffD2)
  note mi = trans [OF ms [THEN conjunct1] s(1)]
  note se = trans [OF ms [THEN conjunct2] s(2)]
  show ?thesis
    by (rule h mi se v conjI)+
qed

text \<open>
  Claim C5 as stated says that the menu is shown exactly when the remaining time is 0.
  After one tick from the initial state the remaining time is \<open>- 1\<close>, and the view is
  the menu.
\<close>

theorem view_menu_below_zero:
  "run [(0, tickMsg)] NewModel
     = Inr (NewModel\<lparr>progress := progress_New\<lparr>targetPercent := 1\<rparr>, timeLeft := - 1\<rparr>, [])
   \<and> timeLeft (NewModel\<lparr>progress := progress_New\<lparr>targetPercent := 1\<rparr>, timeLeft := - 1\<rparr>) \<noteq> 0
   \<and> View (\<lambda>p. []) (\<lambda>t. []) (\<lambda>s. s)
         (NewModel\<lparr>progress := progress_New\<lparr>targetPercent := 1\<rparr>, timeLeft := - 1\<rparr>)
       = ''Choose time type:'' @ [CHR 0x0A]
         @ bullet_mark @ ''work (25m)'' @ [CHR 0x0A]
         @ ''[ ] rest (05m)'' @ [CHR 0x0A]
         @ [CHR 0x0A] @ ''(press q to quit)'' @ [CHR 0x0A]"
proof -
  let ?m1 = "NewModel\<lparr>progress := progress_New\<lparr>targetPercent := 1\<rparr>, timeLeft := - 1\<rparr>"
  have a: "run [(0, tickMsg)] NewModel = Inr (?m1, [])"
    by code_simp
  have b: "timeLeft ?m1 \<noteq> 0" by simp
  have "timeLeft ?m1 \<le>s 0" by (simp add: word_sle_eq)
  then have "View (\<lambda>p. []) (\<lambda>t. []) (\<lambda>s. s) ?m1 = menu_view ?m1"
    by (simp add: View_def)
  moreover have "cursor ?m1 = 0" by (simp add: NewModel_def)
  ultimately have c: "View (\<lambda>p. []) (\<lambda>t. []) (\<lambda>s. s) ?m1
       = ''Choose time type:'' @ [CHR 0x0A]
         @ bullet_mark @ ''work (25m)'' @ [CHR 0x0A]
         @ ''[ ] rest (05m)'' @ [CHR 0x0A]
         @ [CHR 0x0A] @ ''(press q to quit)'' @ [CHR 0x0A]"
    by (simp add: menu_view_text)
  from a b c show ?thesis by (intro conjI)
qed

section \<open>The completion notification\<close>

lemma Update_no_quit:
  assumes "Update now e m = Inr (m', effs, c)"
    and "e \<noteq> KeyMsg ''q''" and "e \<noteq> KeyMsg ''ctrl+c''"
  shows "c \<noteq> Some Quit"
proof (cases e)
  case (KeyMsg k)
  with assms show ?thesis
    by (auto simp add: Update_key_def split: if_splits sum.splits)
next
  case tickMsg
  with assms(1) show ?thesis
    by (auto simp add: Update_tick_def Let_def split: if_splits)
qed (use assms(1) in auto)

lemma run_append:
  assumes "run xs m = Inr (m1, e1)"
    and "\<forall>(t, e) \<in> set xs. e \<noteq> KeyMsg ''q'' \<and> e \<noteq> KeyMsg ''ctrl+c''"
  shows "run (xs @ ys) m =
           (case run ys m1 of Inl err \<Rightarrow> Inl err | Inr (m2, e2) \<Rightarrow> Inr (m2, e1 @ e2))"
  using assms
proof (induction xs arbitrary: m m1 e1)
  case Nil
  then show ?case by (auto split: sum.splits)
next
  case (Cons x xs)
  obtain now e where x: "x = (now, e)" by (cases x)
  from Cons.prems(2) x have nq: "e \<noteq> KeyMsg ''q''" "e \<noteq> KeyMsg ''ctrl+c''" by simp_all
  from Cons.prems(1) x obtain ma effs c where
    u: "Update now e m = Inr (ma, effs, c)"
    by (auto split: sum.splits)
  from Update_no_quit [OF u nq] have c: "c \<noteq> Some Quit" .
  from Cons.prems(1) x u c obtain eb where
    r: "run xs ma = Inr (m1, eb)" and e1: "e1 = effs @ eb"
    by (auto split: sum.splits)
  from Cons.prems(2) have "\<forall>(t, e) \<in> set xs. e \<noteq> KeyMsg ''q'' \<and> e \<noteq> KeyMsg ''ctrl+c''"
    by simp
  from Cons.IH [OF r this] x u c e1 show ?case
    by (auto split: sum.splits)
qed

lemma run_ticks:
  assumes "\<not> pause m" and "timeType m = WORKTIME \<or> timeType m = RESTTIME"
    and "timeLeft m \<le>s totalSeconds m"
    and "\<forall>x \<in> set ts. snd x = tickMsg" and "ts \<noteq> []"
    and "int (length ts) \<le> sint (timeLeft m)"
  shows "run ts m =
           Inr (m\<lparr>timeLeft := timeLeft m - of_nat (length ts),
                   progress := (progress m)\<lparr>targetPercent :=
                     float_sub 1 (float_div (float64 (timeLeft m - of_nat (length ts)))
                                            (float64 (totalSeconds m)))\<rparr>\<rparr>, [])"
  using assms
proof (induction ts arbitrary: m)
  case Nil
  then show ?case by simp
next
  case (Cons x ts)
  obtain now where x: "x = (now, tickMsg)" using Cons.prems(4) by (cases x) simp
  from Cons.prems(6) have pos: "0 <s timeLeft m" by (simp add: word_sless_alt)
  note t = tick_active [OF Cons.prems(1) Cons.prems(2) pos Cons.prems(3)]
  let ?m1 = "m\<lparr>timeLeft := timeLeft m - 1,
               progress := (progress m)\<lparr>targetPercent :=
                  float_sub 1 (float_div (float64 (timeLeft m - 1)) (float64 (totalSeconds m)))\<rparr>\<rparr>"
  have tot: "totalSeconds ?m1 = totalSeconds m" by (simp add: totalSeconds_def)
  show ?case
  proof (cases "ts = []")
    case True
    with x t(1) show ?thesis by simp
  next
    case False
    have a: "\<not> pause ?m1" using Cons.prems(1) by simp
    have b: "timeType ?m1 = WORKTIME \<or> timeType ?m1 = RESTTIME" using Cons.prems(2) by simp
    have c: "timeLeft ?m1 \<le>s totalSeconds ?m1"
      using Cons.prems(3) by (simp add: tot word_sle_eq t(2))
    have d: "\<forall>x \<in> set ts. snd x = tickMsg" using Cons.prems(4) by simp
    have e: "int (length ts) \<le> sint (timeLeft ?m1)"
      using Cons.prems(6) by (simp add: t(2))
    from Cons.IH [OF a b c d False e] x t(1) tot show ?thesis
      by (simp add: algebra_simps)
  qed
qed

text \<open>
  Claim C3 says that the sound and the notification are issued exactly once when a
  countdown reaches zero, and never again while the timer stays idle and nothing is
  selected. The code at the run: down, enter (rest, 300 seconds), 301 ticks. The last
  of these ticks finds remaining time 0 and target 1 and makes both calls once. An
  \<open>esc\<close> then puts the remaining time back to 0 while the target stays 1, and the next
  tick makes both calls a second time. The same test fires without any countdown: tick,
  \<open>esc\<close>, tick from the initial state.
\<close>

theorem notification_repeats:
  "run ([(0, KeyMsg ''down''), (1, KeyMsg ''enter'')]
        @ map (\<lambda>i. (int i, tickMsg)) [2..<303]) NewModel
     = Inr (\<lparr>progress = \<lparr>Width = 40, targetPercent = 1\<rparr>, timeLeft = - 1,
             timeType = ''rest'', cursor = 1, choice = [], pause = False,
             endTime = 300000000001\<rparr>,
            [PlayNotification, notify ''Time to rest is left'' []])
   \<and> run ([(0, KeyMsg ''down''), (1, KeyMsg ''enter'')]
        @ map (\<lambda>i. (int i, tickMsg)) [2..<303]
        @ [(303, KeyMsg ''esc''), (304, tickMsg)]) NewModel
     = Inr (\<lparr>progress = \<lparr>Width = 40, targetPercent = 1\<rparr>, timeLeft = - 1,
             timeType = ''rest'', cursor = 1, choice = [], pause = False,
             endTime = 300000000001\<rparr>,
            [PlayNotification, notify ''Time to rest is left'' [],
             PlayNotification, notify ''Time to rest is left'' []])
   \<and> run [(0, tickMsg), (1, KeyMsg ''esc''), (2, tickMsg)] NewModel
     = Inr (\<lparr>progress = \<lparr>Width = 40, targetPercent = 1\<rparr>, timeLeft = - 1,
             timeType = ''work'', cursor = 0, choice = [], pause = False, endTime = 0\<rparr>,
            [PlayNotification, notify ''Time to work is left'' []])"
proof -
  define pre :: "(int \<times> msg) list" where "pre = [(0, KeyMsg ''down''), (1, KeyMsg ''enter'')]"
  define ticks :: "(int \<times> msg) list" where "ticks = map (\<lambda>i. (int i, tickMsg)) [2..<302]"
  define post :: "(int \<times> msg) list" where "post = [(303, KeyMsg ''esc''), (304, tickMsg)]"
  define m0 where "m0 = \<lparr>progress = \<lparr>Width = 40, targetPercent = 0\<rparr>, timeLeft = 300,
    timeType = ''rest'', cursor = 1, choice = [], pause = False, endTime = 300000000001\<rparr>"
  define m300 where "m300 = \<lparr>progress = \<lparr>Width = 40, targetPercent = 1\<rparr>, timeLeft = 0,
    timeType = ''rest'', cursor = 1, choice = [], pause = False, endTime = 300000000001\<rparr>"
  define m301 where "m301 = \<lparr>progress = \<lparr>Width = 40, targetPercent = 1\<rparr>, timeLeft = - 1,
    timeType = ''rest'', cursor = 1, choice = [], pause = False, endTime = 300000000001\<rparr>"
  define E where "E = [PlayNotification, notify ''Time to rest is left'' []]"
  have A: "run pre NewModel = Inr (m0, [])"
    unfolding pre_def m0_def by code_simp
  have len: "length ticks = 300"
    unfolding ticks_def by (simp del: upt_rec_numeral)
  have h1: "\<not> pause m0" by (simp add: m0_def)
  have h2: "timeType m0 = WORKTIME \<or> timeType m0 = RESTTIME"
    by (simp add: m0_def RESTTIME_def)
  have h3: "timeLeft m0 \<le>s totalSeconds m0"
    unfolding m0_def by code_simp
  have h4: "\<forall>x \<in> set ticks. snd x = tickMsg"
    unfolding ticks_def by (auto simp del: upt_rec_numeral)
  have h5: "ticks \<noteq> []" using len by auto
  have h6: "int (length ticks) \<le> sint (timeLeft m0)"
    by (simp add: len m0_def)
  have val: "m0\<lparr>timeLeft := timeLeft m0 - of_nat 300,
                progress := (progress m0)\<lparr>targetPercent :=
                  float_sub 1 (float_div (float64 (timeLeft m0 - of_nat 300))
                                         (float64 (totalSeconds m0)))\<rparr>\<rparr> = m300"
    unfolding m0_def m300_def by code_simp
  have B: "run ticks m0 = Inr (m300, [])"
    using run_ticks [OF h1 h2 h3 h4 h5 h6] by (simp only: len val)
  have C: "run [(int 302, tickMsg)] m300 = Inr (m301, E)"
    unfolding m300_def m301_def E_def by code_simp
  have D: "run post m301 = Inr (m301, E)"
    unfolding post_def m301_def E_def by code_simp
  have q1: "\<forall>(t, e) \<in> set pre. e \<noteq> KeyMsg ''q'' \<and> e \<noteq> KeyMsg ''ctrl+c''"
    by (simp add: pre_def)
  have q2: "\<forall>(t, e) \<in> set ticks. e \<noteq> KeyMsg ''q'' \<and> e \<noteq> KeyMsg ''ctrl+c''"
    using h4 by auto
  have q3: "\<forall>(t, e) \<in> set [(int 302, tickMsg)]. e \<noteq> KeyMsg ''q'' \<and> e \<noteq> KeyMsg ''ctrl+c''"
    by simp
  have R1: "run (ticks @ [(int 302, tickMsg)]) m0 = Inr (m301, E)"
    using run_append [OF B q2, of "[(int 302, tickMsg)]"] by (simp only: C sum.case prod.case append_Nil)
  have q4: "\<forall>(t, e) \<in> set (ticks @ [(int 302, tickMsg)]). e \<noteq> KeyMsg ''q'' \<and> e \<noteq> KeyMsg ''ctrl+c''"
    using q2 by auto
  have R2: "run ((ticks @ [(int 302, tickMsg)]) @ post) m0 = Inr (m301, E @ E)"
    using run_append [OF R1 q4, of post] by (simp only: D sum.case prod.case)
  have S1: "run (pre @ ticks @ [(int 302, tickMsg)]) NewModel = Inr (m301, E)"
    using run_append [OF A q1, of "ticks @ [(int 302, tickMsg)]"] by (simp only: R1 sum.case prod.case append_Nil)
  have S2: "run (pre @ (ticks @ [(int 302, tickMsg)]) @ post) NewModel = Inr (m301, E @ E)"
    using run_append [OF A q1, of "(ticks @ [(int 302, tickMsg)]) @ post"] by (simp only: R2 sum.case prod.case append_Nil)
  have "[2..<Suc 302] = [2..<302] @ [302]" by (rule upt_Suc_append) simp
  moreover have "Suc 302 = 303" by simp
  ultimately have sp: "[2..<303] = [2..<302] @ [302::nat]" by (simp only:)
  have tk: "map (\<lambda>i. (int i, tickMsg)) [2..<303] = ticks @ [(int 302, tickMsg)]"
    by (simp only: sp map_append list.map ticks_def)
  have T1: "run ([(0, KeyMsg ''down''), (1, KeyMsg ''enter'')]
        @ map (\<lambda>i. (int i, tickMsg)) [2..<303]) NewModel = Inr (m301, E)"
    using S1 by (simp only: tk pre_def)
  have T2: "run ([(0, KeyMsg ''down''), (1, KeyMsg ''enter'')]
        @ map (\<lambda>i. (int i, tickMsg)) [2..<303]
        @ [(303, KeyMsg ''esc''), (304, tickMsg)]) NewModel = Inr (m301, E @ E)"
    using S2 by (simp only: tk pre_def post_def)
  have T3: "run [(0, tickMsg), (1, KeyMsg ''esc''), (2, tickMsg)] NewModel
     = Inr (\<lparr>progress = \<lparr>Width = 40, targetPercent = 1\<rparr>, timeLeft = - 1,
             timeType = ''work'', cursor = 0, choice = [], pause = False, endTime = 0\<rparr>,
            [PlayNotification, notify ''Time to work is left'' []])"
    by code_simp
  have EE: "E @ E = [PlayNotification, notify ''Time to rest is left'' [],
             PlayNotification, notify ''Time to rest is left'' []]"
    by (simp add: E_def)
  from T1 T2 T3 show ?thesis
    by (simp only: m301_def E_def EE [unfolded E_def]) 
qed

end
